theory Spec2Isabelle
  imports Main "HOL-Library.Word"
begin

section \<open>Data model of the DAO contract\<close>

text \<open>
  The contract is written in PyTeal with Beaker and runs on the Algorand virtual machine.
  Machine values are modelled with their widths: \<open>abi.Uint64\<close> is a 64-bit word, the
  address of a sender is a 32-byte value (a 256-bit word), byte strings are lists of bytes.
  A failing \<open>Assert\<close>, a failing arithmetic opcode or a failing box read rejects the whole
  transaction; every such place of the source is a branch returning \<open>Inl\<close> of an error
  that names the place. The virtual machine itself reports one kind of failure only.

  An argument of type \<open>abi.Address\<close> is not checked when it is decoded: \<open>vote\<close> accepts a
  \<open>proposer\<close> of any length, so it is a byte string here. The sender of a transaction is
  always 32 bytes long.

  What the ledger demands of a transaction around the call (fees, the balance of the
  application account, box references, the opcode budget, the limits on the sizes of names
  and values) is not part of the model: the model accepts every call that the chain accepts.
\<close>

type_synonym byte = "8 word"
type_synonym bytes = "byte list"
type_synonym uint64 = "64 word"
type_synonym address = "256 word"

datatype error =
    ReceiverMismatch       \<comment> \<open>\<open>Assert\<close> on the payment receiver in \<open>add_proposal\<close>\<close>
  | DuplicateProposal      \<comment> \<open>\<open>Assert\<close> that the proposal box does not exist yet\<close>
  | InsufficientFunding    \<comment> \<open>\<open>Assert\<close> that the payment covers the MBR difference\<close>
  | AlreadyVoted           \<comment> \<open>\<open>Assert\<close> that \<open>has_voted\<close> has no box for the sender\<close>
  | BoxNotFound bytes      \<comment> \<open>read of a box that does not exist, with the key that was read\<close>
  | ArithOverflow          \<comment> \<open>\<open>+\<close> on uint64 beyond \<open>2^64 - 1\<close>\<close>
  | ArithUnderflow         \<comment> \<open>\<open>-\<close> on uint64 below 0\<close>
  | BytesOutOfRange        \<comment> \<open>\<open>Suffix\<close> or an extraction past the end, \<open>Btoi\<close> of more than 8 bytes\<close>
  | MintingFailure         \<comment> \<open>the inner transaction was rejected\<close>

record NFTProposal =
  url :: string
  metadata_hash :: "256 word"
  name :: string
  unit_name :: string
  reserve :: address

text \<open>
  What a box holds is what one of the three mappings has written there: the encoding of
  \<open>abi.Bool\<close> (one byte), of \<open>abi.Uint64\<close> (eight bytes) or of an \<open>NFTProposal\<close> (the
  encoded tuple, 70 bytes of fixed part and more).
\<close>

datatype box_value = BoolValue bool | Uint64Value uint64 | ProposalValue NFTProposal

text \<open>
  All boxes of the application live in one name space: \<open>boxes\<close> maps the name of a box to
  what it holds. The three \<open>BoxMapping\<close>s of the source are three ways to name a box.
\<close>

record DAOState =
  winning_proposal_votes :: uint64
  winning_proposal :: bytes
  boxes :: "bytes \<rightharpoonup> box_value"

record PaymentTransaction =
  receiver :: address
  amount :: uint64

text \<open>
  What the contract reads from the chain: its own address and its account's minimum balance
  requirement, which the protocol computes from the storage the application holds.
\<close>

record chain =
  current_application_address :: address
  minBalance :: "DAOState \<Rightarrow> uint64"

subsection \<open>Opcodes and ABI encoding\<close>

definition uint64_add :: "uint64 \<Rightarrow> uint64 \<Rightarrow> error + uint64" where
  "uint64_add a b = (if unat a + unat b < 2 ^ 64 then Inr (a + b) else Inl ArithOverflow)"

definition uint64_sub :: "uint64 \<Rightarrow> uint64 \<Rightarrow> error + uint64" where
  "uint64_sub a b = (if b \<le> a then Inr (a - b) else Inl ArithUnderflow)"

text \<open>Big-endian bytes of a number, most significant byte first, \<open>n\<close> bytes long.\<close>

fun be_bytes :: "nat \<Rightarrow> nat \<Rightarrow> bytes" where
  "be_bytes 0 v = []"
| "be_bytes (Suc n) v = be_bytes n (v div 256) @ [of_nat (v mod 256)]"

definition itob :: "uint64 \<Rightarrow> bytes" where
  "itob v = be_bytes 8 (unat v)"

definition be_nat :: "bytes \<Rightarrow> nat" where
  "be_nat bs = foldl (\<lambda>acc b. acc * 256 + unat b) 0 bs"

definition btoi :: "bytes \<Rightarrow> error + uint64" where
  "btoi bs = (if length bs \<le> 8 then Inr (of_nat (be_nat bs)) else Inl BytesOutOfRange)"

definition suffix :: "bytes \<Rightarrow> nat \<Rightarrow> error + bytes" where
  "suffix bs n = (if n \<le> length bs then Inr (drop n bs) else Inl BytesOutOfRange)"

definition address_bytes :: "address \<Rightarrow> bytes" where
  "address_bytes a = be_bytes 32 (unat a)"

definition abi_bool :: "bool \<Rightarrow> bytes" where
  "abi_bool b = [if b then 0x80 else 0x00]"

text \<open>
  \<open>abi.Tuple2[abi.Address, abi.Uint64]\<close>: both components are static, the encoding is
  their concatenation. \<open>proposal_key.set(a, i)\<close> followed by \<open>encode()\<close> gives these bytes,
  whatever the length of \<open>a\<close> is.
\<close>

definition encode_key :: "bytes \<Rightarrow> uint64 \<Rightarrow> bytes" where
  "encode_key a i = a @ itob i"

text \<open>
  \<open>store_into\<close> of an \<open>abi.Uint64\<close> decodes the bytes of the box with \<open>Btoi\<close>: one byte
  \<open>80\<close> reads as 128.
\<close>

definition decode_uint64 :: "box_value \<Rightarrow> error + uint64" where
  "decode_uint64 v =
     (case v of
        BoolValue b \<Rightarrow> btoi (abi_bool b)
      | Uint64Value n \<Rightarrow> btoi (itob n)
      | ProposalValue p \<Rightarrow> Inl BytesOutOfRange)"

subsection \<open>Box names\<close>

text \<open>
  \<open>has_voted\<close> has no prefix: its boxes are named by the address alone. The other two
  mappings put their prefix, \<open>p-\<close> or \<open>v-\<close>, before the encoded key.
\<close>

definition has_voted_box :: "address \<Rightarrow> bytes" where
  "has_voted_box a = address_bytes a"

definition proposals_box :: "bytes \<Rightarrow> bytes" where
  "proposals_box k = [0x70, 0x2d] @ k"

definition votes_box :: "bytes \<Rightarrow> bytes" where
  "votes_box k = [0x76, 0x2d] @ k"

definition has_voted :: "DAOState \<Rightarrow> address \<Rightarrow> box_value option" where
  "has_voted s a = boxes s (has_voted_box a)"

definition proposals :: "DAOState \<Rightarrow> bytes \<Rightarrow> box_value option" where
  "proposals s k = boxes s (proposals_box k)"

definition votes :: "DAOState \<Rightarrow> bytes \<Rightarrow> box_value option" where
  "votes s k = boxes s (votes_box k)"

text \<open>\<open>set\<close> replaces the box of that name, whatever it held.\<close>

definition box_set :: "bytes \<Rightarrow> box_value \<Rightarrow> DAOState \<Rightarrow> DAOState" where
  "box_set n v s = s\<lparr>boxes := (boxes s)(n \<mapsto> v)\<rparr>"

subsection \<open>The DAO application\<close>

definition create :: DAOState where
  "create = \<lparr>winning_proposal_votes = 0, winning_proposal = [], boxes = Map.empty\<rparr>"

definition add_proposal ::
  "chain \<Rightarrow> address \<Rightarrow> NFTProposal \<Rightarrow> uint64 \<Rightarrow> PaymentTransaction \<Rightarrow> DAOState \<Rightarrow> error + DAOState"
where
  "add_proposal c sender proposal proposal_id mbr_payment s =
     (if receiver mbr_payment \<noteq> current_application_address c then Inl ReceiverMismatch
      else
        let pre_mbr = minBalance c s;
            addr = address_bytes sender;
            proposal_key = encode_key addr proposal_id
        in
          if proposals s proposal_key \<noteq> None then Inl DuplicateProposal
          else
            let s1 = box_set (proposals_box proposal_key) (ProposalValue proposal) s;
                current_mbr = minBalance c s1
            in
              case uint64_sub current_mbr pre_mbr of
                Inl err \<Rightarrow> Inl err
              | Inr delta \<Rightarrow>
                  if delta \<le> amount mbr_payment then Inr s1 else Inl InsufficientFunding)"

definition vote :: "address \<Rightarrow> bytes \<Rightarrow> uint64 \<Rightarrow> DAOState \<Rightarrow> error + DAOState" where
  "vote sender proposer proposal_id s =
     (let zero_val = 0;
          proposal_key = encode_key proposer proposal_id
      in
        if has_voted s sender \<noteq> None then Inl AlreadyVoted
        else
          let s1 = (if votes s proposal_key = None
                    then box_set (votes_box proposal_key) (Uint64Value zero_val) s else s)
          in
            case votes s1 proposal_key of
              None \<Rightarrow> Inl (BoxNotFound proposal_key)
            | Some stored \<Rightarrow>
                (case decode_uint64 stored of
                   Inl err \<Rightarrow> Inl err
                 | Inr current_votes \<Rightarrow>
                     (case uint64_add current_votes 1 of
                        Inl err \<Rightarrow> Inl err
                      | Inr total_votes \<Rightarrow>
                          let s2 = box_set (votes_box proposal_key) (Uint64Value total_votes) s1;
                              s3 = (if winning_proposal_votes s2 < total_votes
                                    then s2\<lparr>winning_proposal_votes := total_votes,
                                            winning_proposal := proposal_key\<rparr>
                                    else s2);
                              true_value = True
                          in Inr (box_set (has_voted_box sender) (BoolValue true_value) s3))))"

text \<open>
  \<open>mint\<close> calls the application whose id is the template value \<open>TMPL_MINTER_APP\<close>; the
  argument \<open>tmpl_minter_app\<close> is what that application does with the bytes it is given: it
  fails or leaves a last log entry. (The source's own argument \<open>minter_app\<close> only makes the
  application available to the call.) Decoding the winner pointer and the box into tuples
  checks nothing: the pointer's bytes are the key, and what the box holds is handed on.
  \<open>mint\<close> writes nothing to the DAO's storage.
\<close>

definition mint :: "(box_value \<Rightarrow> error + bytes) \<Rightarrow> DAOState \<Rightarrow> error + uint64" where
  "mint tmpl_minter_app s =
     (let proposal_key = winning_proposal s
      in
        case proposals s proposal_key of
          None \<Rightarrow> Inl (BoxNotFound proposal_key)
        | Some proposal \<Rightarrow>
            (case tmpl_minter_app proposal of
               Inl err \<Rightarrow> Inl err
             | Inr last_log \<Rightarrow>
                 (case suffix last_log 4 of
                    Inl err \<Rightarrow> Inl err
                  | Inr b \<Rightarrow> btoi b)))"

subsection \<open>The NFT minter application\<close>

datatype TxnType = Payment | KeyRegistration | AssetConfig | AssetTransfer | AssetFreeze
  | ApplicationCall

record InnerTxn =
  type_enum :: TxnType
  config_asset_name :: string
  config_asset_unit_name :: string
  config_asset_reserve :: address
  config_asset_url :: string
  config_asset_metadata_hash :: "256 word"
  config_asset_total :: uint64
  fee :: uint64

text \<open>
  \<open>execute\<close> is the protocol running the inner transaction: it rejects it or creates the
  asset and assigns its id (\<open>InnerTxn.created_asset_id()\<close>).
\<close>

definition mint_nft :: "(InnerTxn \<Rightarrow> error + uint64) \<Rightarrow> NFTProposal \<Rightarrow> error + uint64" where
  "mint_nft execute proposal =
     execute \<lparr>type_enum = AssetConfig,
              config_asset_name = name proposal,
              config_asset_unit_name = unit_name proposal,
              config_asset_reserve = reserve proposal,
              config_asset_url = url proposal,
              config_asset_metadata_hash = metadata_hash proposal,
              config_asset_total = 1,
              fee = 0\<rparr>"

text \<open>
  An ABI call that returns a value logs the four bytes \<open>15 1f 7c 75\<close> followed by the
  encoded value; this is the last log entry that the caller of \<open>mint_nft\<close> reads.
\<close>

definition abi_return_log :: "uint64 \<Rightarrow> bytes" where
  "abi_return_log v = [0x15, 0x1f, 0x7c, 0x75] @ itob v"

text \<open>
  The minter application as the DAO calls it. Given the encoding of a proposal, \<open>mint_nft\<close>
  reads its five fields. Given the one byte or the eight bytes of another box, the first read
  of a field looks for an offset beyond their end, and the call fails.
\<close>

definition minter :: "(InnerTxn \<Rightarrow> error + uint64) \<Rightarrow> box_value \<Rightarrow> error + bytes" where
  "minter execute arg =
     (case arg of
        ProposalValue proposal \<Rightarrow>
          (case mint_nft execute proposal of
             Inl err \<Rightarrow> Inl err
           | Inr out \<Rightarrow> Inr (abi_return_log out))
      | BoolValue b \<Rightarrow> Inl BytesOutOfRange
      | Uint64Value n \<Rightarrow> Inl BytesOutOfRange)"

subsection \<open>Transactions\<close>

text \<open>
  An application call is atomic: when it fails, the transaction is rejected and the
  storage stays as it was before the call.
\<close>

datatype call =
    AddProposal address NFTProposal uint64 PaymentTransaction
  | Vote address bytes uint64
  | Mint "box_value \<Rightarrow> error + bytes"

fun dao_call :: "chain \<Rightarrow> call \<Rightarrow> DAOState \<Rightarrow> error + DAOState" where
  "dao_call c (AddProposal sender proposal proposal_id mbr_payment) s =
     add_proposal c sender proposal proposal_id mbr_payment s"
| "dao_call c (Vote sender proposer proposal_id) s = vote sender proposer proposal_id s"
| "dao_call c (Mint tmpl_minter_app) s =
     (case mint tmpl_minter_app s of Inl err \<Rightarrow> Inl err | Inr out \<Rightarrow> Inr s)"

definition transact :: "chain \<Rightarrow> DAOState \<Rightarrow> call \<Rightarrow> DAOState" where
  "transact c s t = (case dao_call c t s of Inl err \<Rightarrow> s | Inr s' \<Rightarrow> s')"

definition run :: "chain \<Rightarrow> DAOState \<Rightarrow> call list \<Rightarrow> DAOState" where
  "run c s ts = foldl (transact c) s ts"

inductive reachable :: "chain \<Rightarrow> DAOState \<Rightarrow> bool" for c :: chain where
  reachable_create: "reachable c create"
| reachable_transact: "reachable c s \<Longrightarrow> reachable c (transact c s t)"

subsection \<open>Vote counts and voters of a state\<close>

text \<open>
  The count that \<open>vote\<close> reads for a key, the sum of these counts over all keys that have
  a count box, and the addresses for which \<open>vote\<close> finds a \<open>has_voted\<close> box.
\<close>

definition vote_count :: "DAOState \<Rightarrow> bytes \<Rightarrow> nat" where
  "vote_count s k =
     (case votes s k of
        None \<Rightarrow> 0
      | Some v \<Rightarrow> (case decode_uint64 v of Inl err \<Rightarrow> 0 | Inr n \<Rightarrow> unat n))"

definition tally :: "DAOState \<Rightarrow> nat" where
  "tally s = (\<Sum>k\<in>{k. votes s k \<noteq> None}. vote_count s k)"

definition guarded :: "DAOState \<Rightarrow> address set" where
  "guarded s = {a. has_voted s a \<noteq> None}"

subsection \<open>Example values\<close>

definition key_of :: "address \<Rightarrow> uint64 \<Rightarrow> bytes" where
  "key_of a i = encode_key (address_bytes a) i"

definition example_chain :: chain where
  "example_chain = \<lparr>current_application_address = 99,
     minBalance = (\<lambda>s. if proposals s (key_of 1 0) = None then 100000 else 138900)\<rparr>"

definition example_proposal :: NFTProposal where
  "example_proposal =
     \<lparr>url = ''ipfs://a'', metadata_hash = 7, name = ''Art'', unit_name = ''ART'', reserve = 5\<rparr>"

definition other_proposal :: NFTProposal where
  "other_proposal =
     \<lparr>url = ''ipfs://b'', metadata_hash = 8, name = ''Bid'', unit_name = ''BID'', reserve = 6\<rparr>"

definition example_payment :: PaymentTransaction where
  "example_payment = \<lparr>receiver = 99, amount = 38900\<rparr>"

definition example_execute :: "InnerTxn \<Rightarrow> error + uint64" where
  "example_execute t = (if config_asset_total t = 1 then Inr 1001 else Inl MintingFailure)"

definition registered :: DAOState where
  "registered = run example_chain create [AddProposal 1 example_proposal 0 example_payment]"

definition elected :: DAOState where
  "elected = run example_chain create
     [AddProposal 1 example_proposal 0 example_payment, Vote 2 (address_bytes 1) 0]"

definition orphan_vote :: DAOState where
  "orphan_vote = run example_chain create [Vote 1 (address_bytes 2) 0]"

text \<open>
  A proposer of 22 bytes: with the prefix and the eight bytes of the id, the name of the
  count box is 32 bytes long, the length of an address. For an address that begins with the
  two bytes of the prefix \<open>v-\<close>, its next 22 bytes as proposer and its last 8 bytes as
  proposal id name a count box that is the \<open>has_voted\<close> box of the address.
\<close>

definition colliding_proposer :: "address \<Rightarrow> bytes" where
  "colliding_proposer a = take 22 (drop 2 (address_bytes a))"

definition colliding_id :: "address \<Rightarrow> uint64" where
  "colliding_id a = of_nat (be_nat (drop 24 (address_bytes a)))"

definition colliding_key :: "address \<Rightarrow> bytes" where
  "colliding_key a = encode_key (colliding_proposer a) (colliding_id a)"

text \<open>
  \<open>collider\<close> is such an address: the bytes \<open>76 2d\<close>, 29 zero bytes and \<open>05\<close>.
\<close>

definition short_proposer :: bytes where
  "short_proposer = replicate 22 0"

definition address_of :: "bytes \<Rightarrow> address" where
  "address_of bs = of_nat (be_nat bs)"

definition collider :: address where
  "collider = address_of (votes_box (encode_key short_proposer 5))"

section \<open>Encodings\<close>

lemma length_be_bytes: "length (be_bytes n v) = n"
  by (induction n arbitrary: v) simp_all

lemma be_nat_snoc: "be_nat (bs @ [b]) = be_nat bs * 256 + unat b"
  by (simp add: be_nat_def)

lemma be_nat_be_bytes: "be_nat (be_bytes n v) = v mod 256 ^ n"
proof (induction n arbitrary: v)
  case 0
  show ?case by (simp add: be_nat_def)
next
  case (Suc n)
  have b: "unat (of_nat (v mod 256) :: byte) = v mod 256"
    by (simp add: unat_of_nat)
  have "be_nat (be_bytes (Suc n) v) = (v div 256 mod 256 ^ n) * 256 + v mod 256"
    by (simp add: be_nat_snoc Suc.IH b)
  also have "\<dots> = v mod 256 ^ Suc n"
    by (simp add: mod_mult2_eq)
  finally show ?case .
qed

lemma be_bytes_inj:
  assumes "be_bytes n v = be_bytes n w" "v < 256 ^ n" "w < 256 ^ n"
  shows "v = w"
proof -
  have "be_nat (be_bytes n v) = be_nat (be_bytes n w)" using assms(1) by simp
  then show ?thesis using assms(2,3) by (simp add: be_nat_be_bytes)
qed

lemma unat_byte_less: "unat (b :: byte) < 256"
  using unsigned_less [of b] by simp

lemma be_nat_less: "be_nat bs < 256 ^ length bs"
proof (induction bs rule: rev_induct)
  case Nil
  show ?case by (simp add: be_nat_def)
next
  case (snoc b bs)
  have "be_nat bs * 256 + unat b < (be_nat bs + 1) * 256"
    using unat_byte_less [of b] by simp
  also have "\<dots> \<le> 256 ^ length bs * 256"
    using snoc.IH by (intro mult_right_mono) simp_all
  finally show ?case by (simp add: be_nat_snoc)
qed

lemma be_bytes_be_nat: "be_bytes (length bs) (be_nat bs) = bs"
proof (induction bs rule: rev_induct)
  case Nil
  show ?case by simp
next
  case (snoc b bs)
  have d: "(be_nat bs * 256 + unat b) div 256 = be_nat bs"
    using unat_byte_less [of b] by simp
  have m: "(be_nat bs * 256 + unat b) mod 256 = unat b"
    using unat_byte_less [of b] by simp
  have m': "unat b mod 256 = unat b"
    using unat_byte_less [of b] by simp
  show ?case by (simp add: be_nat_snoc d m m' snoc.IH)
qed

lemma length_itob: "length (itob v) = 8"
  by (simp add: itob_def length_be_bytes)

lemma length_address_bytes: "length (address_bytes a) = 32"
  by (simp add: address_bytes_def length_be_bytes)

lemma itob_inj: "itob v = itob w \<longleftrightarrow> v = w"
proof
  assume "itob v = itob w"
  moreover have "unat v < 256 ^ 8" "unat w < 256 ^ 8"
    using unsigned_less [of v] unsigned_less [of w] by simp_all
  ultimately have "unat v = unat w"
    unfolding itob_def by (rule be_bytes_inj)
  then show "v = w" by (simp add: word_unat_eq_iff)
qed simp

lemma address_bytes_inj: "address_bytes a = address_bytes b \<longleftrightarrow> a = b"
proof
  assume "address_bytes a = address_bytes b"
  moreover have "unat a < 256 ^ 32" "unat b < 256 ^ 32"
    using unsigned_less [of a] unsigned_less [of b] by simp_all
  ultimately have "unat a = unat b"
    unfolding address_bytes_def by (rule be_bytes_inj)
  then show "a = b" by (simp add: word_unat_eq_iff)
qed simp

lemma address_bytes_address_of:
  assumes "length bs = 32"
  shows "address_bytes (address_of bs) = bs"
proof -
  have "be_nat bs < 256 ^ 32" using be_nat_less [of bs] assms by simp
  then have "be_nat bs < 2 ^ LENGTH(256)" by simp
  then have "unat (of_nat (be_nat bs) :: address) = be_nat bs"
    by (simp add: unat_of_nat)
  then have "address_bytes (address_of bs) = be_bytes (length bs) (be_nat bs)"
    by (simp add: address_bytes_def address_of_def assms)
  then show ?thesis by (simp add: be_bytes_be_nat)
qed

lemma length_encode_key: "length (encode_key a i) = length a + 8"
  by (simp add: encode_key_def length_itob)

lemma encode_key_inj: "encode_key a i = encode_key b j \<longleftrightarrow> a = b \<and> i = j"
  by (simp add: encode_key_def length_itob itob_inj)

lemma encode_key_not_Nil: "encode_key a i \<noteq> []"
  using length_encode_key [of a i] by auto

lemma length_key_of: "length (key_of a i) = 40"
  by (simp add: key_of_def length_encode_key length_address_bytes)

lemma be_nat_itob: "be_nat (itob v) = unat v"
proof -
  have "unat v < 256 ^ 8" using unsigned_less [of v] by simp
  then show ?thesis by (simp add: itob_def be_nat_be_bytes)
qed

lemma btoi_itob: "btoi (itob v) = Inr v"
  by (simp add: btoi_def length_itob be_nat_itob)

lemma btoi_abi_bool: "btoi (abi_bool True) = Inr 128" "btoi (abi_bool False) = Inr 0"
  by (simp_all add: btoi_def abi_bool_def be_nat_def)

lemma decode_uint64_simps:
  "decode_uint64 (Uint64Value n) = Inr n"
  "decode_uint64 (BoolValue True) = Inr 128"
  "decode_uint64 (BoolValue False) = Inr 0"
  "decode_uint64 (ProposalValue p) = Inl BytesOutOfRange"
  by (simp_all add: decode_uint64_def btoi_itob btoi_abi_bool)

lemma mint_log:
  "(case suffix (abi_return_log v) 4 of Inl err \<Rightarrow> Inl err | Inr b \<Rightarrow> btoi b) = Inr v"
  by (simp add: suffix_def abi_return_log_def btoi_itob)

lemma be_bytes_zero: "be_bytes n 0 = replicate n 0"
  by (induction n) (simp_all add: replicate_append_same)

lemma small_address_bytes:
  assumes "unat a < 256"
  shows "address_bytes a = replicate 31 0 @ [of_nat (unat a)]"
proof -
  have g: "be_bytes (Suc n) v = be_bytes n 0 @ [of_nat v]" if "v < 256" for n v
    using that by simp
  from g [OF assms, of 31] show ?thesis
    by (simp add: address_bytes_def be_bytes_zero)
qed

lemma itob_of_bytes:
  assumes "length bs = 8"
  shows "itob (of_nat (be_nat bs)) = bs"
proof -
  have "be_nat bs < 256 ^ 8" using be_nat_less [of bs] assms by simp
  then have "be_nat bs < 2 ^ LENGTH(64)" by simp
  then have "unat (of_nat (be_nat bs) :: uint64) = be_nat bs"
    by (simp add: unat_of_nat)
  then have "itob (of_nat (be_nat bs)) = be_bytes (length bs) (be_nat bs)"
    by (simp add: itob_def assms)
  then show ?thesis by (simp add: be_bytes_be_nat)
qed

section \<open>Names of boxes\<close>

lemma length_has_voted_box: "length (has_voted_box a) = 32"
  by (simp add: has_voted_box_def length_address_bytes)

lemma length_proposals_box: "length (proposals_box k) = length k + 2"
  by (simp add: proposals_box_def)

lemma length_votes_box: "length (votes_box k) = length k + 2"
  by (simp add: votes_box_def)

lemma has_voted_box_inj: "has_voted_box a = has_voted_box b \<longleftrightarrow> a = b"
  by (simp add: has_voted_box_def address_bytes_inj)

lemma proposals_box_inj: "proposals_box k = proposals_box k' \<longleftrightarrow> k = k'"
  by (simp add: proposals_box_def)

lemma votes_box_inj: "votes_box k = votes_box k' \<longleftrightarrow> k = k'"
  by (simp add: votes_box_def)

lemma proposals_box_not_votes_box:
  "proposals_box k \<noteq> votes_box k'" "votes_box k' \<noteq> proposals_box k"
  by (simp_all add: proposals_box_def votes_box_def)

lemma has_voted_box_eq_length:
  "has_voted_box a = proposals_box k \<Longrightarrow> length k = 30"
  "has_voted_box a = votes_box k \<Longrightarrow> length k = 30"
  "proposals_box k = has_voted_box a \<Longrightarrow> length k = 30"
  "votes_box k = has_voted_box a \<Longrightarrow> length k = 30"
proof -
  show "has_voted_box a = proposals_box k \<Longrightarrow> length k = 30"
    using length_has_voted_box [of a] length_proposals_box [of k] by simp
  show "has_voted_box a = votes_box k \<Longrightarrow> length k = 30"
    using length_has_voted_box [of a] length_votes_box [of k] by simp
  show "proposals_box k = has_voted_box a \<Longrightarrow> length k = 30"
    using length_has_voted_box [of a] length_proposals_box [of k] by simp
  show "votes_box k = has_voted_box a \<Longrightarrow> length k = 30"
    using length_has_voted_box [of a] length_votes_box [of k] by simp
qed

lemma key_of_boxes_not_address:
  "has_voted_box a \<noteq> proposals_box (key_of b i)"
  "has_voted_box a \<noteq> votes_box (key_of b i)"
  "proposals_box (key_of b i) \<noteq> has_voted_box a"
  "votes_box (key_of b i) \<noteq> has_voted_box a"
proof -
  have "length (has_voted_box a) \<noteq> length (proposals_box (key_of b i))"
    "length (has_voted_box a) \<noteq> length (votes_box (key_of b i))"
    by (simp_all add: length_has_voted_box length_proposals_box length_votes_box length_key_of)
  then show "has_voted_box a \<noteq> proposals_box (key_of b i)"
    "has_voted_box a \<noteq> votes_box (key_of b i)"
    "proposals_box (key_of b i) \<noteq> has_voted_box a"
    "votes_box (key_of b i) \<noteq> has_voted_box a"
    by auto
qed

lemma small_address_box:
  assumes "unat a < 256"
  shows "has_voted_box a \<noteq> votes_box k" "has_voted_box a \<noteq> proposals_box k"
    "votes_box k \<noteq> has_voted_box a" "proposals_box k \<noteq> has_voted_box a"
proof -
  have "replicate 31 (0 :: byte) = 0 # replicate 30 0" by (simp add: numeral_eq_Suc)
  then have "hd (has_voted_box a) = 0"
    by (simp add: has_voted_box_def small_address_bytes [OF assms])
  moreover have "hd (votes_box k) = 0x76" "hd (proposals_box k) = 0x70"
    by (simp_all add: votes_box_def proposals_box_def)
  ultimately show "has_voted_box a \<noteq> votes_box k" "has_voted_box a \<noteq> proposals_box k"
    "votes_box k \<noteq> has_voted_box a" "proposals_box k \<noteq> has_voted_box a"
    by auto
qed

lemma colliding_box:
  assumes "take 2 (address_bytes a) = [0x76, 0x2d]"
  shows "has_voted_box a = votes_box (colliding_key a)"
proof -
  let ?bs = "address_bytes a"
  have len: "length ?bs = 32" by (rule length_address_bytes)
  then have "length (drop 24 ?bs) = 8" by simp
  then have id: "itob (colliding_id a) = drop 24 ?bs"
    unfolding colliding_id_def by (rule itob_of_bytes)
  have "take 22 (drop 2 ?bs) @ drop 24 ?bs = drop 2 ?bs"
    using append_take_drop_id [of 22 "drop 2 ?bs"] by simp
  then have "votes_box (colliding_key a) = take 2 ?bs @ drop 2 ?bs"
    by (simp add: votes_box_def colliding_key_def encode_key_def colliding_proposer_def id assms)
  then show ?thesis by (simp add: has_voted_box_def)
qed

lemma collider_bytes: "address_bytes collider = votes_box (encode_key short_proposer 5)"
proof -
  have "length (votes_box (encode_key short_proposer 5)) = 32"
    by (simp add: length_votes_box length_encode_key short_proposer_def)
  then show ?thesis
    by (simp add: collider_def address_bytes_address_of)
qed

lemma collider_prefix: "take 2 (address_bytes collider) = [0x76, 0x2d]"
  by (simp add: collider_bytes votes_box_def)

lemma collider_key: "colliding_key collider = encode_key short_proposer 5"
proof -
  have "votes_box (colliding_key collider) = votes_box (encode_key short_proposer 5)"
    using colliding_box [OF collider_prefix] by (simp add: has_voted_box_def collider_bytes)
  then show ?thesis by (simp add: votes_box_inj)
qed

lemma collider_proposer:
  "colliding_proposer collider = short_proposer" "colliding_id collider = 5"
  using collider_key by (simp_all add: colliding_key_def encode_key_inj)


section \<open>Effects of the calls\<close>

lemma uint64_add_1: "uint64_add n 1 = (if n = - 1 then Inl ArithOverflow else Inr (n + 1))"
proof (cases "n = - 1")
  case True
  then show ?thesis by (simp add: uint64_add_def unsigned_minus_1_eq_mask mask_eq_exp_minus_1)
next
  case False
  have "unat (- 1 :: uint64) = 2 ^ 64 - 1"
    by (simp add: unsigned_minus_1_eq_mask mask_eq_exp_minus_1)
  moreover from False have "unat n \<noteq> unat (- 1 :: uint64)"
    by (simp add: word_unat_eq_iff)
  ultimately have "unat n \<noteq> 2 ^ 64 - 1" by simp
  moreover have "unat n < 2 ^ 64" using unsigned_less [of n] by simp
  ultimately have "unat n + 1 < 2 ^ 64" by simp
  then show ?thesis using False by (simp add: uint64_add_def)
qed

lemma box_set_simps:
  "boxes (box_set n v s) = (boxes s)(n \<mapsto> v)"
  "winning_proposal (box_set n v s) = winning_proposal s"
  "winning_proposal_votes (box_set n v s) = winning_proposal_votes s"
  by (simp_all add: box_set_def)

lemma vote_unfold:
  "vote sender proposer proposal_id s =
     (let k = encode_key proposer proposal_id in
      if has_voted s sender \<noteq> None then Inl AlreadyVoted
      else
        case (case votes s k of None \<Rightarrow> Inr 0 | Some v \<Rightarrow> decode_uint64 v) of
          Inl err \<Rightarrow> Inl err
        | Inr n \<Rightarrow>
            if n = - 1 then Inl ArithOverflow
            else Inr (s\<lparr>boxes := (boxes s)(votes_box k \<mapsto> Uint64Value (n + 1),
                                           has_voted_box sender \<mapsto> BoolValue True),
                       winning_proposal_votes :=
                         (if winning_proposal_votes s < n + 1 then n + 1
                          else winning_proposal_votes s),
                       winning_proposal :=
                         (if winning_proposal_votes s < n + 1 then k
                          else winning_proposal s)\<rparr>))"
proof (cases "votes s (encode_key proposer proposal_id)")
  case None
  then show ?thesis
    by (simp add: vote_def votes_def box_set_def decode_uint64_simps uint64_add_1 Let_def)
next
  case (Some v)
  then show ?thesis
    by (cases "decode_uint64 v")
       (simp_all add: vote_def votes_def box_set_def uint64_add_1 Let_def)
qed

lemma vote_AlreadyVoted:
  "has_voted s sender \<noteq> None \<Longrightarrow> vote sender proposer proposal_id s = Inl AlreadyVoted"
  by (simp add: vote_def)

lemma vote_Inr:
  assumes "vote sender proposer proposal_id s = Inr s'"
  obtains n where
    "has_voted s sender = None"
    "(case votes s (encode_key proposer proposal_id) of None \<Rightarrow> Inr 0 | Some v \<Rightarrow> decode_uint64 v)
       = Inr n"
    "n \<noteq> - 1"
    "boxes s' = (boxes s)(votes_box (encode_key proposer proposal_id) \<mapsto> Uint64Value (n + 1),
                           has_voted_box sender \<mapsto> BoolValue True)"
    "winning_proposal_votes s' =
       (if winning_proposal_votes s < n + 1 then n + 1 else winning_proposal_votes s)"
    "winning_proposal s' =
       (if winning_proposal_votes s < n + 1 then encode_key proposer proposal_id
        else winning_proposal s)"
  using assms by (auto simp: vote_unfold Let_def split: if_splits sum.splits)

lemma vote_Inr_has_voted:
  assumes "vote sender proposer proposal_id s = Inr s'"
  shows "has_voted s' sender = Some (BoolValue True)"
proof -
  from assms obtain n where
    "boxes s' = (boxes s)(votes_box (encode_key proposer proposal_id) \<mapsto> Uint64Value (n + 1),
                           has_voted_box sender \<mapsto> BoolValue True)"
    by (rule vote_Inr)
  then show ?thesis by (simp add: has_voted_def)
qed

lemma add_proposal_Inr:
  "add_proposal c sender proposal proposal_id mbr_payment s = Inr s' \<Longrightarrow>
     proposals s (key_of sender proposal_id) = None \<and>
     s' = box_set (proposals_box (key_of sender proposal_id)) (ProposalValue proposal) s"
  by (auto simp: add_proposal_def key_of_def Let_def split: if_splits sum.splits)

lemma add_proposal_Duplicate:
  "proposals s (key_of sender proposal_id) \<noteq> None \<Longrightarrow>
   add_proposal c sender proposal proposal_id mbr_payment s =
     (if receiver mbr_payment \<noteq> current_application_address c then Inl ReceiverMismatch
      else Inl DuplicateProposal)"
  by (simp add: add_proposal_def key_of_def Let_def)

lemma transact_cases:
  obtains (rejected) e where "dao_call c t s = Inl e" "transact c s t = s"
  | (add) sender proposal proposal_id mbr_payment where
      "t = AddProposal sender proposal proposal_id mbr_payment"
      "proposals s (key_of sender proposal_id) = None"
      "transact c s t =
         box_set (proposals_box (key_of sender proposal_id)) (ProposalValue proposal) s"
  | (vote) sender proposer proposal_id where
      "t = Vote sender proposer proposal_id"
      "vote sender proposer proposal_id s = Inr (transact c s t)"
  | (mint) tmpl_minter_app where "t = Mint tmpl_minter_app" "transact c s t = s"
proof (cases "dao_call c t s")
  case (Inl e)
  then show ?thesis using rejected by (simp add: transact_def)
next
  case (Inr s')
  then have eq: "transact c s t = s'" by (simp add: transact_def)
  show ?thesis
  proof (cases t)
    case (AddProposal sender proposal proposal_id mbr_payment)
    with Inr eq add_proposal_Inr [of c sender proposal proposal_id mbr_payment s s'] show ?thesis
      using add by simp
  next
    case (Vote sender proposer proposal_id)
    with Inr eq show ?thesis using vote by simp
  next
    case (Mint tmpl_minter_app)
    with Inr eq show ?thesis using mint by (simp split: sum.splits)
  qed
qed

lemma run_Nil: "run c s [] = s"
  by (simp add: run_def)

lemma run_Cons: "run c s (t # ts) = run c (transact c s t) ts"
  by (simp add: run_def)

lemma run_snoc: "run c s (ts @ [t]) = transact c (run c s ts) t"
  by (simp add: run_def)

lemma mint_read_only: "transact c s (Mint tmpl_minter_app) = s"
  by (simp add: transact_def split: sum.splits)

lemma run_mints: "run c s (map Mint apps) = s"
  by (induction apps) (simp_all add: run_Nil run_Cons mint_read_only)

text \<open>No call deletes a box.\<close>

lemma box_kept_transact:
  assumes "boxes s n \<noteq> None"
  shows "boxes (transact c s t) n \<noteq> None"
proof (cases c t s rule: transact_cases)
  case (vote sender proposer proposal_id)
  from vote(2) obtain m where
    "boxes (transact c s t) = (boxes s)(votes_box (encode_key proposer proposal_id) \<mapsto> Uint64Value (m + 1),
                           has_voted_box sender \<mapsto> BoolValue True)"
    by (rule vote_Inr)
  with assms show ?thesis by auto
next
  case (add sender proposal proposal_id mbr_payment)
  with assms show ?thesis by (auto simp: box_set_simps)
qed (use assms in simp_all)

lemma box_kept_run: "boxes s n \<noteq> None \<Longrightarrow> boxes (run c s ts) n \<noteq> None"
proof (induction ts arbitrary: s)
  case Nil
  then show ?case by (simp add: run_Nil)
next
  case (Cons t ts)
  from Cons.prems have "boxes (transact c s t) n \<noteq> None"
    by (rule box_kept_transact)
  then show ?case unfolding run_Cons by (rule Cons.IH)
qed

text \<open>
  A box with the prefix \<open>p-\<close> keeps what it holds: \<open>add_proposal\<close> writes it only when it
  does not exist; \<open>vote\<close> writes a box with the prefix \<open>v-\<close> and the \<open>has_voted\<close> box of the
  sender, which did not exist when the call began or is the box with the prefix \<open>v-\<close>.
\<close>

lemma proposal_box_kept_transact:
  assumes "proposals s k = Some v"
  shows "proposals (transact c s t) k = Some v"
proof (cases c t s rule: transact_cases)
  case (vote sender proposer proposal_id)
  from vote(2) obtain m where b:
    "has_voted s sender = None"
    "boxes (transact c s t) = (boxes s)(votes_box (encode_key proposer proposal_id) \<mapsto> Uint64Value (m + 1),
                           has_voted_box sender \<mapsto> BoolValue True)"
    by (rule vote_Inr)
  from b(1) assms have "has_voted_box sender \<noteq> proposals_box k"
    by (auto simp: has_voted_def proposals_def)
  with assms show ?thesis
    by (simp add: proposals_def b(2) proposals_box_not_votes_box)
next
  case (add sender proposal proposal_id mbr_payment)
  from add(2) assms have "k \<noteq> key_of sender proposal_id" by auto
  with assms show ?thesis
    by (simp add: proposals_def add(3) box_set_simps proposals_box_inj)
qed (use assms in simp_all)

lemma proposal_box_kept_run:
  "proposals s k = Some v \<Longrightarrow> proposals (run c s ts) k = Some v"
proof (induction ts arbitrary: s)
  case Nil
  then show ?case by (simp add: run_Nil)
next
  case (Cons t ts)
  from Cons.prems have "proposals (transact c s t) k = Some v"
    by (rule proposal_box_kept_transact)
  then show ?case unfolding run_Cons by (rule Cons.IH)
qed

lemma has_voted_kept_run: "has_voted s a \<noteq> None \<Longrightarrow> has_voted (run c s ts) a \<noteq> None"
  unfolding has_voted_def by (rule box_kept_run)

section \<open>Invariants of the reachable states\<close>

lemma reachable_run: "reachable c s \<Longrightarrow> reachable c (run c s ts)"
proof (induction ts arbitrary: s)
  case Nil
  then show ?case by (simp add: run_Nil)
next
  case (Cons t ts)
  from Cons.prems have "reachable c (transact c s t)" by (rule reachable_transact)
  then show ?case unfolding run_Cons by (rule Cons.IH)
qed

lemma reachable_run_create: "reachable c (run c create ts)"
  by (rule reachable_run [OF reachable_create])

text \<open>Only \<open>add_proposal\<close> writes a proposal, and only under a key it has built itself.\<close>

lemma reachable_proposal_names:
  assumes "reachable c s"
  shows "boxes s n = Some (ProposalValue p) \<Longrightarrow> \<exists>a i. n = proposals_box (key_of a i)"
  using assms
proof (induction arbitrary: n p rule: reachable.induct)
  case reachable_create
  then show ?case by (simp add: create_def)
next
  case (reachable_transact s t)
  show ?case
  proof (cases c t s rule: transact_cases)
    case (vote sender proposer proposal_id)
    from vote(2) obtain m where b:
      "boxes (transact c s t) = (boxes s)(votes_box (encode_key proposer proposal_id) \<mapsto> Uint64Value (m + 1),
                           has_voted_box sender \<mapsto> BoolValue True)"
      by (rule vote_Inr)
    from reachable_transact.prems have "boxes s n = Some (ProposalValue p)"
      unfolding b by (auto split: if_splits)
    then show ?thesis by (rule reachable_transact.IH)
  next
    case (add sender proposal proposal_id mbr_payment)
    show ?thesis
    proof (cases "n = proposals_box (key_of sender proposal_id)")
      case True
      then show ?thesis by blast
    next
      case False
      with reachable_transact.prems have "boxes s n = Some (ProposalValue p)"
        by (simp add: add(3) box_set_simps)
      then show ?thesis by (rule reachable_transact.IH)
    qed
  qed (use reachable_transact.prems reachable_transact.IH in simp_all)
qed

text \<open>
  Before the first accepted vote the pointer is empty, the leading count is 0 and every box
  holds a proposal. After it the pointer is a key with a count box, and some address has a
  \<open>has_voted\<close> box.
\<close>

lemma reachable_pointer:
  assumes "reachable c s"
  shows "if winning_proposal s = []
         then winning_proposal_votes s = 0 \<and>
              (\<forall>n v. boxes s n = Some v \<longrightarrow> (\<exists>p. v = ProposalValue p))
         else votes s (winning_proposal s) \<noteq> None \<and> (\<exists>a. has_voted s a \<noteq> None)"
  using assms
proof (induction rule: reachable.induct)
  case reachable_create
  show ?case by (simp add: create_def)
next
  case (reachable_transact s t)
  show ?case
  proof (cases c t s rule: transact_cases)
    case (vote sender proposer proposal_id)
    let ?k = "encode_key proposer proposal_id"
    let ?s' = "transact c s t"
    from vote(2) obtain m where m:
      "(case votes s ?k of None \<Rightarrow> Inr 0 | Some v \<Rightarrow> decode_uint64 v) = Inr m"
      "m \<noteq> - 1"
      "boxes ?s' = (boxes s)(votes_box ?k \<mapsto> Uint64Value (m + 1),
                             has_voted_box sender \<mapsto> BoolValue True)"
      "winning_proposal_votes ?s' =
         (if winning_proposal_votes s < m + 1 then m + 1 else winning_proposal_votes s)"
      "winning_proposal ?s' =
         (if winning_proposal_votes s < m + 1 then ?k else winning_proposal s)"
      by (rule vote_Inr)
    have voter: "has_voted ?s' sender \<noteq> None"
      by (simp add: has_voted_def m(3))
    have key: "votes ?s' ?k \<noteq> None"
      by (simp add: votes_def m(3))
    show ?thesis
    proof (cases "winning_proposal_votes s < m + 1")
      case True
      with m(5) have "winning_proposal ?s' = ?k" by simp
      with key voter show ?thesis by (auto simp: encode_key_not_Nil)
    next
      case False
      have ne: "winning_proposal s \<noteq> []"
      proof
        assume e: "winning_proposal s = []"
        with reachable_transact.IH have z: "winning_proposal_votes s = 0"
          and all: "\<And>n v. boxes s n = Some v \<Longrightarrow> \<exists>p. v = ProposalValue p"
          by auto
        have "votes s ?k = None"
        proof (cases "votes s ?k")
          case (Some v)
          then have "boxes s (votes_box ?k) = Some v" by (simp add: votes_def)
          with all obtain p where "boxes s (votes_box ?k) = Some (ProposalValue p)" by blast
          with reachable_proposal_names [OF reachable_transact.hyps]
          obtain a i where "votes_box ?k = proposals_box (key_of a i)" by blast
          then show ?thesis by (simp add: proposals_box_not_votes_box)
        qed simp
        with m(1) have "m = 0" by simp
        with z False show False by simp
      qed
      with reachable_transact.IH have old: "votes s (winning_proposal s) \<noteq> None" by simp
      then have "boxes s (votes_box (winning_proposal s)) \<noteq> None" by (simp add: votes_def)
      then have "boxes ?s' (votes_box (winning_proposal s)) \<noteq> None"
        by (rule box_kept_transact)
      with False m(5) ne voter show ?thesis by (auto simp: votes_def)
    qed
  next
    case (add sender proposal proposal_id mbr_payment)
    note b = add(3)
    show ?thesis
    proof (cases "winning_proposal s = []")
      case True
      with reachable_transact.IH show ?thesis
        by (auto simp: b box_set_simps split: if_splits)
    next
      case False
      with reachable_transact.IH obtain a where
        "boxes s (votes_box (winning_proposal s)) \<noteq> None" "boxes s (has_voted_box a) \<noteq> None"
        by (auto simp: votes_def has_voted_def)
      then have "boxes (transact c s t) (votes_box (winning_proposal s)) \<noteq> None"
        "boxes (transact c s t) (has_voted_box a) \<noteq> None"
        by (simp_all add: box_kept_transact)
      moreover have "winning_proposal (transact c s t) = winning_proposal s"
        by (simp add: b box_set_simps)
      ultimately show ?thesis using False
        by (auto simp: votes_def has_voted_def)
    qed
  qed (use reachable_transact.IH in \<open>auto split: if_splits\<close>)
qed

lemma reachable_no_vote:
  assumes "reachable c s"
  shows "winning_proposal s = [] \<longleftrightarrow> (\<forall>a. has_voted s a = None)"
proof
  assume e: "winning_proposal s = []"
  with reachable_pointer [OF assms]
  have all: "\<And>n v. boxes s n = Some v \<Longrightarrow> \<exists>p. v = ProposalValue p" by auto
  show "\<forall>a. has_voted s a = None"
  proof
    fix a
    show "has_voted s a = None"
    proof (cases "has_voted s a")
      case (Some v)
      then have "boxes s (has_voted_box a) = Some v" by (simp add: has_voted_def)
      with all obtain p where "boxes s (has_voted_box a) = Some (ProposalValue p)" by blast
      with reachable_proposal_names [OF assms]
      obtain b i where "has_voted_box a = proposals_box (key_of b i)" by blast
      then show ?thesis by (simp add: key_of_boxes_not_address)
    qed simp
  qed
next
  assume "\<forall>a. has_voted s a = None"
  with reachable_pointer [OF assms] show "winning_proposal s = []"
    by (auto split: if_splits)
qed

lemma reachable_names:
  assumes "reachable c s"
  shows "boxes s n \<noteq> None \<Longrightarrow>
         (\<exists>a i. n = proposals_box (key_of a i)) \<or> (\<exists>k. n = votes_box k) \<or>
         (\<exists>a. n = has_voted_box a)"
  using assms
proof (induction arbitrary: n rule: reachable.induct)
  case reachable_create
  then show ?case by (simp add: create_def)
next
  case (reachable_transact s t)
  show ?case
  proof (cases c t s rule: transact_cases)
    case (vote sender proposer proposal_id)
    from vote(2) obtain m where b:
      "boxes (transact c s t) = (boxes s)(votes_box (encode_key proposer proposal_id) \<mapsto> Uint64Value (m + 1),
                           has_voted_box sender \<mapsto> BoolValue True)"
      by (rule vote_Inr)
    show ?thesis
    proof (cases "n = votes_box (encode_key proposer proposal_id) \<or> n = has_voted_box sender")
      case True
      then show ?thesis by blast
    next
      case False
      with reachable_transact.prems have "boxes s n \<noteq> None" by (simp add: b)
      then show ?thesis by (rule reachable_transact.IH)
    qed
  next
    case (add sender proposal proposal_id mbr_payment)
    show ?thesis
    proof (cases "n = proposals_box (key_of sender proposal_id)")
      case True
      then show ?thesis by blast
    next
      case False
      with reachable_transact.prems have "boxes s n \<noteq> None"
        by (simp add: add(3) box_set_simps)
      then show ?thesis by (rule reachable_transact.IH)
    qed
  qed (use reachable_transact.prems reachable_transact.IH in simp_all)
qed

lemma reachable_empty_key:
  assumes "reachable c s"
  shows "proposals s [] = None"
proof (rule ccontr)
  assume "proposals s [] \<noteq> None"
  then have "boxes s (proposals_box []) \<noteq> None" by (simp add: proposals_def)
  from reachable_names [OF assms this] show False
  proof (elim disjE exE)
    fix a i assume "proposals_box [] = proposals_box (key_of a i)"
    then have "length (key_of a i) = 0" by (simp add: proposals_box_inj)
    then show False by (simp add: length_key_of)
  next
    fix k assume "proposals_box [] = votes_box k"
    then show False by (simp add: proposals_box_not_votes_box)
  next
    fix a assume "proposals_box [] = has_voted_box a"
    then have "length ([] :: bytes) = 30" by (rule has_voted_box_eq_length(3))
    then show False by simp
  qed
qed

section \<open>The example states\<close>

lemma registered_eq:
  "registered = \<lparr>winning_proposal_votes = 0, winning_proposal = [],
     boxes = [proposals_box (key_of 1 0) \<mapsto> ProposalValue example_proposal]\<rparr>"
  by (simp add: registered_def run_def transact_def add_proposal_def example_chain_def
      example_payment_def create_def Let_def uint64_sub_def proposals_def box_set_def
      key_of_def [symmetric])

lemma elected_eq:
  "elected = \<lparr>winning_proposal_votes = 1, winning_proposal = key_of 1 0,
     boxes = [proposals_box (key_of 1 0) \<mapsto> ProposalValue example_proposal,
              votes_box (key_of 1 0) \<mapsto> Uint64Value 1,
              has_voted_box 2 \<mapsto> BoolValue True]\<rparr>"
proof -
  have "elected = transact example_chain registered (Vote 2 (address_bytes 1) 0)"
    by (simp add: elected_def registered_def run_def)
  then show ?thesis
    by (simp add: registered_eq transact_def vote_unfold Let_def has_voted_def votes_def
        key_of_def [symmetric] key_of_boxes_not_address proposals_box_not_votes_box)
qed

lemma orphan_vote_eq:
  "orphan_vote = \<lparr>winning_proposal_votes = 1, winning_proposal = key_of 2 0,
     boxes = [votes_box (key_of 2 0) \<mapsto> Uint64Value 1, has_voted_box 1 \<mapsto> BoolValue True]\<rparr>"
  by (simp add: orphan_vote_def run_def transact_def vote_unfold create_def Let_def
      has_voted_def votes_def key_of_def [symmetric])

lemma reachable_registered: "reachable example_chain registered"
  unfolding registered_def by (rule reachable_run_create)

lemma reachable_elected: "reachable example_chain elected"
  unfolding elected_def by (rule reachable_run_create)

lemma reachable_orphan_vote: "reachable example_chain orphan_vote"
  unfolding orphan_vote_def by (rule reachable_run_create)

lemma self_collision:
  assumes "take 2 (address_bytes a) = [0x76, 0x2d]"
  shows "vote a (colliding_proposer a) (colliding_id a) create =
           Inr \<lparr>winning_proposal_votes = 1, winning_proposal = colliding_key a,
                boxes = [has_voted_box a \<mapsto> BoolValue True]\<rparr>"
proof -
  have "votes_box (colliding_key a) = has_voted_box a"
    using colliding_box [OF assms] by simp
  then show ?thesis
    by (simp add: vote_unfold create_def Let_def has_voted_def votes_def
        colliding_key_def [symmetric])
qed


section \<open>Properties of the specification\<close>

text \<open>
  Claim C1 (double-vote prevention). Once \<open>vote\<close> has succeeded for a sender \<open>i\<close>, every
  later \<open>vote\<close> by \<open>i\<close>, for the same or any other key and after any further transactions
  \<open>ts\<close>, fails at the \<open>has_voted\<close> assertion; the rejected transaction leaves the storage,
  and with it every vote count, as it was.
\<close>

theorem double_vote_rejected:
  assumes "vote i proposer1 id1 s = Inr s1"
  shows "vote i proposer2 id2 (run c s1 ts) = Inl AlreadyVoted \<and>
         transact c (run c s1 ts) (Vote i proposer2 id2) = run c s1 ts \<and>
         votes (transact c (run c s1 ts) (Vote i proposer2 id2)) = votes (run c s1 ts)"
proof -
  from assms have "has_voted s1 i \<noteq> None"
    by (simp add: vote_Inr_has_voted)
  then have "has_voted (run c s1 ts) i \<noteq> None"
    by (rule has_voted_kept_run)
  then have "vote i proposer2 id2 (run c s1 ts) = Inl AlreadyVoted"
    by (rule vote_AlreadyVoted)
  then show ?thesis by (simp add: transact_def)
qed

theorem double_vote_rejected_witness:
  "vote 1 (address_bytes 2) 0 create = Inr orphan_vote \<and>
   (vote 1 (address_bytes 3) 4 (run example_chain orphan_vote [Vote 5 (address_bytes 2) 0])
      = Inl AlreadyVoted \<and>
    transact example_chain (run example_chain orphan_vote [Vote 5 (address_bytes 2) 0])
        (Vote 1 (address_bytes 3) 4)
      = run example_chain orphan_vote [Vote 5 (address_bytes 2) 0] \<and>
    votes (transact example_chain (run example_chain orphan_vote [Vote 5 (address_bytes 2) 0])
        (Vote 1 (address_bytes 3) 4))
      = votes (run example_chain orphan_vote [Vote 5 (address_bytes 2) 0]))"
proof -
  have h: "vote 1 (address_bytes 2) 0 create = Inr orphan_vote"
    by (simp add: orphan_vote_eq vote_unfold create_def Let_def has_voted_def votes_def
        key_of_def [symmetric])
  show ?thesis
    by (rule conjI [OF h double_vote_rejected [OF h]])
qed

text \<open>
  Claim C2 (winner pointer) fails on the program. Let the address of the sender begin with the
  two bytes \<open>v-\<close>, and let the sender vote, in the first transaction, with the next 22 bytes
  of its address as proposer and the last 8 bytes as proposal id. The call is accepted. The
  count box of that key is the \<open>has_voted\<close> box of the sender: it gets the count 1, which
  becomes the leading count, and then the flag of the sender is written over it. Afterwards
  the count of the winning key reads 128 and the leading count is 1.
\<close>

theorem leading_count_below_vote_count:
  assumes "take 2 (address_bytes a) = [0x76, 0x2d]"
  shows "vote a (colliding_proposer a) (colliding_id a) create
           = Inr (run c create [Vote a (colliding_proposer a) (colliding_id a)]) \<and>
         winning_proposal (run c create [Vote a (colliding_proposer a) (colliding_id a)])
           = colliding_key a \<and>
         winning_proposal_votes (run c create [Vote a (colliding_proposer a) (colliding_id a)])
           = 1 \<and>
         votes (run c create [Vote a (colliding_proposer a) (colliding_id a)]) (colliding_key a)
           = Some (BoolValue True) \<and>
         vote_count (run c create [Vote a (colliding_proposer a) (colliding_id a)])
           (colliding_key a) = 128"
proof -
  let ?s = "\<lparr>winning_proposal_votes = 1, winning_proposal = colliding_key a,
              boxes = [has_voted_box a \<mapsto> BoolValue True]\<rparr>"
  note v = self_collision [OF assms]
  then have r: "run c create [Vote a (colliding_proposer a) (colliding_id a)] = ?s"
    by (simp add: run_def transact_def)
  have k: "votes ?s (colliding_key a) = Some (BoolValue True)"
    using colliding_box [OF assms] by (simp add: votes_def)
  then have "vote_count ?s (colliding_key a) = 128"
    by (simp add: vote_count_def decode_uint64_simps)
  with v k show ?thesis unfolding r by simp
qed

theorem leading_count_below_vote_count_witness:
  "take 2 (address_bytes collider) = [0x76, 0x2d] \<and>
   vote collider short_proposer 5 create
     = Inr (run example_chain create [Vote collider short_proposer 5]) \<and>
   winning_proposal (run example_chain create [Vote collider short_proposer 5])
     = encode_key short_proposer 5 \<and>
   winning_proposal_votes (run example_chain create [Vote collider short_proposer 5]) = 1 \<and>
   vote_count (run example_chain create [Vote collider short_proposer 5])
     (encode_key short_proposer 5) = 128"
  using leading_count_below_vote_count [OF collider_prefix, of example_chain] collider_prefix
  by (simp add: collider_proposer collider_key)

text \<open>
  Claim C3 (tally conservation) fails on the program, for the same call: after this single
  accepted vote one address has a \<open>has_voted\<close> box, and the counts of all keys with a count
  box add up to 128.
\<close>

theorem tally_exceeds_voters:
  assumes "take 2 (address_bytes a) = [0x76, 0x2d]"
  shows "vote a (colliding_proposer a) (colliding_id a) create
           = Inr (run c create [Vote a (colliding_proposer a) (colliding_id a)]) \<and>
         guarded (run c create [Vote a (colliding_proposer a) (colliding_id a)]) = {a} \<and>
         tally (run c create [Vote a (colliding_proposer a) (colliding_id a)]) = 128"
proof -
  let ?s = "\<lparr>winning_proposal_votes = 1, winning_proposal = colliding_key a,
              boxes = [has_voted_box a \<mapsto> BoolValue True]\<rparr>"
  note v = self_collision [OF assms]
  then have r: "run c create [Vote a (colliding_proposer a) (colliding_id a)] = ?s"
    by (simp add: run_def transact_def)
  note box = colliding_box [OF assms]
  have g: "guarded ?s = {a}"
    by (auto simp: guarded_def has_voted_def has_voted_box_inj)
  have keys: "{k. votes ?s k \<noteq> None} = {colliding_key a}"
    by (auto simp: votes_def box votes_box_inj)
  have "vote_count ?s (colliding_key a) = 128"
    by (simp add: vote_count_def votes_def box decode_uint64_simps)
  then have "tally ?s = 128"
    unfolding tally_def keys by simp
  with v g show ?thesis unfolding r by simp
qed

theorem tally_exceeds_voters_witness:
  "take 2 (address_bytes collider) = [0x76, 0x2d] \<and>
   vote collider short_proposer 5 create
     = Inr (run example_chain create [Vote collider short_proposer 5]) \<and>
   guarded (run example_chain create [Vote collider short_proposer 5]) = {collider} \<and>
   card (guarded (run example_chain create [Vote collider short_proposer 5])) = 1 \<and>
   tally (run example_chain create [Vote collider short_proposer 5]) = 128"
  using tally_exceeds_voters [OF collider_prefix, of example_chain] collider_prefix
  by (simp add: collider_proposer collider_key)

text \<open>
  Claim C4 (duplicate-proposal rejection). After \<open>add_proposal\<close> has succeeded for a sender
  and a proposal id, every later \<open>add_proposal\<close> of the same sender and id fails; with a
  payment addressed to the application it fails at the assertion that the proposal box does
  not exist. The box still holds the first proposal afterwards.
\<close>

theorem duplicate_proposal_rejected:
  assumes "add_proposal c sender p1 proposal_id f s = Inr s1"
  shows "(\<exists>e. add_proposal c sender p2 proposal_id f' (run c s1 ts) = Inl e) \<and>
         (receiver f' = current_application_address c \<longrightarrow>
            add_proposal c sender p2 proposal_id f' (run c s1 ts) = Inl DuplicateProposal) \<and>
         proposals (transact c (run c s1 ts) (AddProposal sender p2 proposal_id f'))
           (key_of sender proposal_id) = Some (ProposalValue p1)"
proof -
  from assms have "proposals s1 (key_of sender proposal_id) = Some (ProposalValue p1)"
    by (auto dest: add_proposal_Inr simp: proposals_def box_set_simps)
  then have stored: "proposals (run c s1 ts) (key_of sender proposal_id) = Some (ProposalValue p1)"
    by (rule proposal_box_kept_run)
  then have "add_proposal c sender p2 proposal_id f' (run c s1 ts) =
      (if receiver f' \<noteq> current_application_address c then Inl ReceiverMismatch
       else Inl DuplicateProposal)"
    by (simp add: add_proposal_Duplicate)
  with stored show ?thesis by (simp add: proposal_box_kept_transact)
qed

theorem duplicate_proposal_rejected_witness:
  "add_proposal example_chain 1 example_proposal 0 example_payment create = Inr registered \<and>
   receiver \<lparr>receiver = 99, amount = 50000\<rparr> = current_application_address example_chain \<and>
   add_proposal example_chain 1 other_proposal 0 \<lparr>receiver = 99, amount = 50000\<rparr>
     (run example_chain registered [Vote 2 (address_bytes 1) 0]) = Inl DuplicateProposal \<and>
   proposals (transact example_chain (run example_chain registered [Vote 2 (address_bytes 1) 0])
        (AddProposal 1 other_proposal 0 \<lparr>receiver = 99, amount = 50000\<rparr>)) (key_of 1 0)
     = Some (ProposalValue example_proposal)"
proof -
  have h: "add_proposal example_chain 1 example_proposal 0 example_payment create = Inr registered"
    by (simp add: registered_eq add_proposal_def example_chain_def example_payment_def
        create_def Let_def uint64_sub_def proposals_def box_set_def key_of_def [symmetric])
  have r: "receiver \<lparr>receiver = 99, amount = 50000\<rparr> = current_application_address example_chain"
    by (simp add: example_chain_def)
  from duplicate_proposal_rejected [OF h, of other_proposal "\<lparr>receiver = 99, amount = 50000\<rparr>"
      "[Vote 2 (address_bytes 1) 0]"] r h
  show ?thesis by simp
qed

text \<open>
  Claim C5 (funding enforcement). The payment goes to the application and the key is free.
  When the amount is below the growth of the minimum balance that writing the proposal
  causes, \<open>add_proposal\<close> fails at the funding assertion. The source writes the box before it
  checks the payment; the transaction is rejected as a whole, so the storage is as it was
  and the key is still absent.
\<close>

theorem underfunded_proposal_rejected:
  assumes "receiver f = current_application_address c"
    and "proposals s (key_of sender proposal_id) = None"
    and "unat (amount f) <
           unat (minBalance c (box_set (proposals_box (key_of sender proposal_id)) (ProposalValue p) s))
             - unat (minBalance c s)"
  shows "add_proposal c sender p proposal_id f s = Inl InsufficientFunding \<and>
         transact c s (AddProposal sender p proposal_id f) = s \<and>
         proposals (transact c s (AddProposal sender p proposal_id f)) (key_of sender proposal_id)
           = None"
proof -
  let ?cur = "minBalance c (box_set (proposals_box (key_of sender proposal_id)) (ProposalValue p) s)"
  from assms(3) have le: "minBalance c s \<le> ?cur"
    by (simp add: word_le_nat_alt)
  then have "unat (?cur - minBalance c s) = unat ?cur - unat (minBalance c s)"
    by (rule unat_sub)
  with assms(3) have "\<not> ?cur - minBalance c s \<le> amount f"
    by (simp add: word_le_nat_alt)
  with assms(1,2) le have "add_proposal c sender p proposal_id f s = Inl InsufficientFunding"
    by (simp add: add_proposal_def Let_def uint64_sub_def key_of_def)
  with assms(2) show ?thesis by (simp add: transact_def)
qed

theorem underfunded_proposal_rejected_witness:
  "receiver \<lparr>receiver = 99, amount = 38899\<rparr> = current_application_address example_chain \<and>
   proposals create (key_of 1 0) = None \<and>
   unat (amount \<lparr>receiver = 99, amount = 38899\<rparr>) <
     unat (minBalance example_chain
             (box_set (proposals_box (key_of 1 0)) (ProposalValue example_proposal) create))
       - unat (minBalance example_chain create) \<and>
   add_proposal example_chain 1 example_proposal 0 \<lparr>receiver = 99, amount = 38899\<rparr> create
     = Inl InsufficientFunding \<and>
   transact example_chain create
     (AddProposal 1 example_proposal 0 \<lparr>receiver = 99, amount = 38899\<rparr>) = create \<and>
   proposals (transact example_chain create
     (AddProposal 1 example_proposal 0 \<lparr>receiver = 99, amount = 38899\<rparr>)) (key_of 1 0) = None"
proof -
  have h1: "receiver \<lparr>receiver = 99, amount = 38899\<rparr> = current_application_address example_chain"
    by (simp add: example_chain_def)
  have h2: "proposals create (key_of 1 0) = None"
    by (simp add: create_def proposals_def)
  have h3: "unat (amount \<lparr>receiver = 99, amount = 38899\<rparr>) <
     unat (minBalance example_chain
             (box_set (proposals_box (key_of 1 0)) (ProposalValue example_proposal) create))
       - unat (minBalance example_chain create)"
    by (simp add: example_chain_def create_def proposals_def box_set_def)
  from underfunded_proposal_rejected [OF h1 h2 h3] h1 h2 h3
  show ?thesis by simp
qed

text \<open>
  Claim C6 (registry immutability). A proposal stored under a key stays there unchanged
  through every later sequence of \<open>add_proposal\<close>, \<open>vote\<close> and \<open>mint\<close> transactions, accepted
  or rejected.
\<close>

theorem stored_proposal_permanent:
  assumes "proposals s k = Some (ProposalValue p)"
  shows "proposals (run c s ts) k = Some (ProposalValue p)"
  using assms by (rule proposal_box_kept_run)

theorem stored_proposal_permanent_witness:
  "proposals registered (key_of 1 0) = Some (ProposalValue example_proposal) \<and>
   proposals (run example_chain registered
      [AddProposal 1 other_proposal 0 \<lparr>receiver = 99, amount = 50000\<rparr>,
       Vote 2 (address_bytes 1) 0, Mint (minter example_execute)])
     (key_of 1 0) = Some (ProposalValue example_proposal)"
proof -
  have h: "proposals registered (key_of 1 0) = Some (ProposalValue example_proposal)"
    by (simp add: registered_eq proposals_def)
  show ?thesis
    by (rule conjI [OF h stored_proposal_permanent [OF h]])
qed

text \<open>
  Claim C7 (finalize). In a reachable state the winner pointer is the empty default exactly when
  no address has a \<open>has_voted\<close> box, that is, when no vote has been accepted. \<open>mint\<close> then
  fails: the empty bytes decode to the empty key, no proposal box has that key, and the read
  of the box is rejected (the virtual machine has one kind of failure; this is the one the
  specification calls NoWinner). Calls of \<open>mint\<close>, however many and whatever the minters do,
  leave the storage as it is, and the call after them reads the box that the winner pointer
  of the state names: it fails when there is none, and otherwise hands what the box holds to
  the minter and returns what the minter's log says. So every call resolves the same proposal.
\<close>

theorem mint_without_votes_fails:
  assumes "reachable c s"
  shows "(winning_proposal s = [] \<longleftrightarrow> (\<forall>a. has_voted s a = None)) \<and>
         (winning_proposal s = [] \<longrightarrow> mint tmpl_minter_app s = Inl (BoxNotFound [])) \<and>
         run c s (map Mint apps) = s \<and>
         mint tmpl_minter_app (run c s (map Mint apps)) =
           (case proposals s (winning_proposal s) of
              None \<Rightarrow> Inl (BoxNotFound (winning_proposal s))
            | Some proposal \<Rightarrow>
                (case tmpl_minter_app proposal of
                   Inl err \<Rightarrow> Inl err
                 | Inr last_log \<Rightarrow>
                     (case suffix last_log 4 of Inl err \<Rightarrow> Inl err | Inr b \<Rightarrow> btoi b)))"
proof (intro conjI impI)
  show "winning_proposal s = [] \<longleftrightarrow> (\<forall>a. has_voted s a = None)"
    using assms by (rule reachable_no_vote)
  show "mint tmpl_minter_app s = Inl (BoxNotFound [])" if "winning_proposal s = []"
    using that reachable_empty_key [OF assms] by (simp add: mint_def)
  show "run c s (map Mint apps) = s"
    by (rule run_mints)
  show "mint tmpl_minter_app (run c s (map Mint apps)) =
           (case proposals s (winning_proposal s) of
              None \<Rightarrow> Inl (BoxNotFound (winning_proposal s))
            | Some proposal \<Rightarrow>
                (case tmpl_minter_app proposal of
                   Inl err \<Rightarrow> Inl err
                 | Inr last_log \<Rightarrow>
                     (case suffix last_log 4 of Inl err \<Rightarrow> Inl err | Inr b \<Rightarrow> btoi b)))"
    by (simp add: run_mints mint_def Let_def)
qed

theorem mint_without_votes_fails_witness:
  "reachable example_chain registered \<and>
   winning_proposal registered = [] \<and>
   has_voted registered 1 = None \<and>
   mint (minter example_execute) registered = Inl (BoxNotFound []) \<and>
   run example_chain registered (map Mint [minter example_execute, minter example_execute])
     = registered \<and>
   reachable example_chain elected \<and>
   proposals elected (winning_proposal elected) = Some (ProposalValue example_proposal) \<and>
   mint (minter example_execute)
     (run example_chain elected (map Mint [minter example_execute, minter example_execute]))
     = Inr 1001"
proof -
  note r = reachable_registered and r' = reachable_elected
  have e: "winning_proposal registered = []"
    by (simp add: registered_eq)
  have p: "proposals elected (winning_proposal elected) = Some (ProposalValue example_proposal)"
    by (simp add: elected_eq proposals_def key_of_boxes_not_address proposals_box_not_votes_box)
  have l: "minter example_execute (ProposalValue example_proposal) = Inr (abi_return_log 1001)"
    by (simp add: minter_def mint_nft_def example_execute_def)
  from mint_without_votes_fails [OF r, of "minter example_execute"
      "[minter example_execute, minter example_execute]"] e
  have a: "has_voted registered 1 = None"
    "mint (minter example_execute) registered = Inl (BoxNotFound [])"
    "run example_chain registered (map Mint [minter example_execute, minter example_execute])
       = registered"
    by simp_all
  from mint_without_votes_fails [OF r', of "minter example_execute"
      "[minter example_execute, minter example_execute]"]
  have "mint (minter example_execute)
     (run example_chain elected (map Mint [minter example_execute, minter example_execute]))
     = (case proposals elected (winning_proposal elected) of
          None \<Rightarrow> Inl (BoxNotFound (winning_proposal elected))
        | Some proposal \<Rightarrow>
            (case minter example_execute proposal of
               Inl err \<Rightarrow> Inl err
             | Inr last_log \<Rightarrow>
                 (case suffix last_log 4 of Inl err \<Rightarrow> Inl err | Inr b \<Rightarrow> btoi b)))"
    by blast
  then have b: "mint (minter example_execute)
     (run example_chain elected (map Mint [minter example_execute, minter example_execute]))
     = Inr 1001"
    unfolding p by (simp add: l mint_log)
  from r r' e p a b show ?thesis by simp
qed

text \<open>
  Claim C8 as stated does not hold: \<open>vote\<close> accepts a key that has no proposal. After the single
  transaction in which address 1 votes for proposer 2 and id 0 on a new application, the winner
  pointer is that key, not empty, no proposal is stored there, and \<open>mint\<close> fails at the read
  of the box.
\<close>

theorem unregistered_winner_counterexample:
  "reachable example_chain orphan_vote \<and>
   winning_proposal orphan_vote \<noteq> [] \<and>
   proposals orphan_vote (winning_proposal orphan_vote) = None \<and>
   mint (minter example_execute) orphan_vote = Inl (BoxNotFound (key_of 2 0))"
proof -
  have "key_of 2 0 \<noteq> []" using length_key_of [of 2 0] by auto
  moreover have "proposals orphan_vote (key_of 2 0) = None"
    by (simp add: orphan_vote_eq proposals_def key_of_boxes_not_address
        proposals_box_not_votes_box)
  ultimately show ?thesis
    using reachable_orphan_vote by (simp add: orphan_vote_eq mint_def)
qed

text \<open>
  Claim C8, amended. In a reachable state in which every key with a count box has a stored
  proposal, a winner pointer that is not empty names a stored proposal: the read of the box in
  \<open>mint\<close> succeeds and the proposal goes to the minter.
\<close>

theorem winner_registered_when_votes_registered:
  assumes "reachable c s" and "winning_proposal s \<noteq> []"
    and "\<forall>k. votes s k \<noteq> None \<longrightarrow> (\<exists>p. proposals s k = Some (ProposalValue p))"
  shows "\<exists>p. proposals s (winning_proposal s) = Some (ProposalValue p) \<and>
           mint tmpl_minter_app s =
             (case tmpl_minter_app (ProposalValue p) of
                Inl err \<Rightarrow> Inl err
              | Inr last_log \<Rightarrow>
                  (case suffix last_log 4 of Inl err \<Rightarrow> Inl err | Inr b \<Rightarrow> btoi b))"
proof -
  from reachable_pointer [OF assms(1)] assms(2)
  have "votes s (winning_proposal s) \<noteq> None" by simp
  with assms(3) obtain p where "proposals s (winning_proposal s) = Some (ProposalValue p)"
    by blast
  then show ?thesis by (simp add: mint_def)
qed

theorem winner_registered_when_votes_registered_witness:
  "reachable example_chain elected \<and>
   winning_proposal elected \<noteq> [] \<and>
   votes elected (key_of 1 0) \<noteq> None \<and>
   proposals elected (winning_proposal elected) = Some (ProposalValue example_proposal) \<and>
   mint (minter example_execute) elected = Inr 1001"
proof -
  note r = reachable_elected
  have h2: "winning_proposal elected \<noteq> []"
    using length_key_of [of 1 0] by (auto simp: elected_eq)
  have small: "unat (2 :: address) < 256" by simp
  have v: "votes elected k \<noteq> None \<longleftrightarrow> k = key_of 1 0" for k
    by (simp add: elected_eq votes_def votes_box_inj proposals_box_not_votes_box
        small_address_box [OF small] key_of_boxes_not_address)
  have p: "proposals elected (key_of 1 0) = Some (ProposalValue example_proposal)"
    by (simp add: elected_eq proposals_def key_of_boxes_not_address proposals_box_not_votes_box)
  from v p have h3: "\<forall>k. votes elected k \<noteq> None \<longrightarrow> (\<exists>p. proposals elected k = Some (ProposalValue p))"
    by auto
  have l: "minter example_execute (ProposalValue example_proposal) = Inr (abi_return_log 1001)"
    by (simp add: minter_def mint_nft_def example_execute_def)
  have w: "winning_proposal elected = key_of 1 0" by (simp add: elected_eq)
  from winner_registered_when_votes_registered [OF r h2 h3, of "minter example_execute"] p l w
  have "mint (minter example_execute) elected = Inr 1001"
    by (auto simp: mint_log)
  moreover have "votes elected (key_of 1 0) \<noteq> None" using v by blast
  ultimately show ?thesis using r h2 p w by simp
qed

text \<open>
  Claim C9 (minting). \<open>mint\<close> hands the proposal stored under the winner pointer to the minter.
  With the minter application of this repository behind \<open>TMPL_MINTER_APP\<close>, the protocol
  executes one asset configuration transaction that carries the url, the metadata hash, the
  name, the unit name and the reserve address of that proposal and the total 1. The result of
  \<open>mint\<close> is the result of that transaction: the id of the created asset, read back from the
  minter's log, or its failure.
\<close>

theorem mint_creates_single_asset:
  assumes "proposals s (winning_proposal s) = Some (ProposalValue p)"
  shows "mint tmpl_minter_app s =
           (case tmpl_minter_app (ProposalValue p) of
              Inl err \<Rightarrow> Inl err
            | Inr last_log \<Rightarrow>
                (case suffix last_log 4 of Inl err \<Rightarrow> Inl err | Inr b \<Rightarrow> btoi b)) \<and>
         mint (minter execute) s =
           execute \<lparr>type_enum = AssetConfig,
                    config_asset_name = name p,
                    config_asset_unit_name = unit_name p,
                    config_asset_reserve = reserve p,
                    config_asset_url = url p,
                    config_asset_metadata_hash = metadata_hash p,
                    config_asset_total = 1,
                    fee = 0\<rparr>"
proof
  from assms show "mint tmpl_minter_app s =
           (case tmpl_minter_app (ProposalValue p) of
              Inl err \<Rightarrow> Inl err
            | Inr last_log \<Rightarrow>
                (case suffix last_log 4 of Inl err \<Rightarrow> Inl err | Inr b \<Rightarrow> btoi b))"
    by (simp add: mint_def)
next
  let ?txn = "\<lparr>type_enum = AssetConfig, config_asset_name = name p,
      config_asset_unit_name = unit_name p, config_asset_reserve = reserve p,
      config_asset_url = url p, config_asset_metadata_hash = metadata_hash p,
      config_asset_total = 1, fee = 0\<rparr>"
  show "mint (minter execute) s = execute ?txn"
  proof (cases "execute ?txn")
    case (Inl err)
    with assms show ?thesis by (simp add: mint_def minter_def mint_nft_def)
  next
    case (Inr asset_id)
    with assms show ?thesis by (simp add: mint_def minter_def mint_nft_def mint_log)
  qed
qed

theorem mint_creates_single_asset_witness:
  "proposals elected (winning_proposal elected) = Some (ProposalValue example_proposal) \<and>
   mint (minter example_execute) elected =
     example_execute \<lparr>type_enum = AssetConfig, config_asset_name = ''Art'',
       config_asset_unit_name = ''ART'', config_asset_reserve = 5,
       config_asset_url = ''ipfs://a'', config_asset_metadata_hash = 7,
       config_asset_total = 1, fee = 0\<rparr> \<and>
   mint (minter example_execute) elected = Inr 1001"
proof -
  have p: "proposals elected (winning_proposal elected) = Some (ProposalValue example_proposal)"
    by (simp add: elected_eq proposals_def key_of_boxes_not_address proposals_box_not_votes_box)
  from mint_creates_single_asset [OF p, of "minter example_execute" example_execute]
  have "mint (minter example_execute) elected =
     example_execute \<lparr>type_enum = AssetConfig, config_asset_name = name example_proposal,
       config_asset_unit_name = unit_name example_proposal,
       config_asset_reserve = reserve example_proposal,
       config_asset_url = url example_proposal,
       config_asset_metadata_hash = metadata_hash example_proposal,
       config_asset_total = 1, fee = 0\<rparr>"
    by (rule conjunct2)
  with p show ?thesis by (simp add: example_proposal_def example_execute_def)
qed



end
